theory Spec2Isabelle
  imports Main "HOL-Library.Word" "HOL-Library.Signed_Division" "HOL-Library.Multiset"
    "HOL-Library.AList"
begin

section \<open>Go values used by the logger\<close>

text \<open>
  The repository holds two variants of the same logger: package \<open>trolog\<close> (the current
  one: sequence ID first on the line, level given as a string, \<open>strconv\<close> for integers,
  \<open>%f\<close> supported) and package \<open>troLogger\<close> in \<open>logger.go\<close> (the earlier one: level code
  first, its own \<open>intToString\<close>). Definitions without a prefix embed package \<open>trolog\<close>;
  those that differ in \<open>logger.go\<close> are embedded a second time under the prefix
  \<open>troLogger_\<close>. \<open>intToString\<close> exists in \<open>logger.go\<close> only.

  A run-time panic of the Go code is a value of type \<open>fault\<close>.
\<close>

datatype fault = IndexOutOfRange | NilDereference | TypeAssertionFailed

text \<open>Go's \<open>int\<close> on a 64-bit platform: two's complement, arithmetic wraps.\<close>

type_synonym go_int = "64 word"

text \<open>Go's \<open>/\<close> and \<open>%\<close> on integers truncate towards zero.\<close>

definition go_div :: "go_int \<Rightarrow> go_int \<Rightarrow> go_int" where
  "go_div a b = word_of_int (sint a sdiv sint b)"

definition go_mod :: "go_int \<Rightarrow> go_int \<Rightarrow> go_int" where
  "go_mod a b = word_of_int (sint a smod sint b)"

text \<open>
  \<open>strconv.Itoa\<close>, \<open>strconv.FormatInt(_, 10)\<close> and \<open>strconv.AppendInt(_, _, 10)\<close> of the
  Go standard library: the decimal digits of the value, most significant first, each
  taken from the digit table, with a leading minus sign for a negative value. \<open>digits\<close>
  is applied to non-negative numbers only.
\<close>

function digits :: "int \<Rightarrow> string" where
  "digits n =
     (if n < 10 then [''0123456789'' ! nat n]
      else digits (n div 10) @ [''0123456789'' ! nat (n mod 10)])"
  by pat_completeness auto
termination
  by (relation "measure nat") auto

declare digits.simps [simp del]

definition FormatInt :: "int \<Rightarrow> string" where
  "FormatInt i = (if i < 0 then CHR ''-'' # digits (- i) else digits i)"

definition Itoa :: "go_int \<Rightarrow> string" where
  "Itoa i = FormatInt (sint i)"

subsection \<open>\<open>intToString\<close> of \<open>logger.go\<close>\<close>

text \<open>
  The first loop of \<open>intToString\<close>: \<open>for i > 0 { buf[n] = byte('0' + i%10); i /= 10; n++ }\<close>
  on the fixed array \<open>buf [10]byte\<close>. A write at an index outside the array panics.
\<close>

function intToString_digits :: "go_int \<Rightarrow> nat \<Rightarrow> char list \<Rightarrow> fault + (nat \<times> char list)" where
  "intToString_digits i n buf =
     (if 0 <s i then
        (if n < length buf
         then intToString_digits (go_div i 10) (n + 1)
                (buf[n := char_of (uint (48 + go_mod i 10))])
         else Inl IndexOutOfRange)
      else Inr (n, buf))"
  by pat_completeness auto
termination
  by (relation "measure (\<lambda>(i, n, buf). length buf - n)") auto

declare intToString_digits.simps [simp del]

text \<open>The second loop: \<open>for j := 0; j < n/2; j++ { buf[j], buf[n-j-1] = buf[n-j-1], buf[j] }\<close>.\<close>

function intToString_swap :: "nat \<Rightarrow> nat \<Rightarrow> char list \<Rightarrow> char list" where
  "intToString_swap j n buf =
     (if j < n div 2
      then intToString_swap (j + 1) n (buf[j := buf ! (n - j - 1), n - j - 1 := buf ! j])
      else buf)"
  by pat_completeness auto
termination
  by (relation "measure (\<lambda>(j, n, buf). n div 2 - j)") auto

declare intToString_swap.simps [simp del]

definition intToString :: "go_int \<Rightarrow> fault + string" where
  "intToString i0 =
     (if i0 = 0 then Inr ''0''
      else
        let buf = replicate 10 (CHR 0x00);
            negative = (i0 <s 0);
            i = (if i0 <s 0 then - i0 else i0)
        in case intToString_digits i 0 buf of
             Inl e \<Rightarrow> Inl e
           | Inr (n, buf) \<Rightarrow>
               (if negative
                then (if n < length buf
                      then Inr (take (n + 1) (intToString_swap 0 (n + 1) (buf[n := CHR ''-''])))
                      else Inl IndexOutOfRange)
                else Inr (take n (intToString_swap 0 n buf))))"

subsection \<open>float64\<close>

text \<open>
  A finite \<open>float64\<close> is \<open>m * 2 ^ e\<close> with a mantissa of at most 53 bits; \<open>Float64 m e\<close>
  is that value. Every arithmetic operation computes the exact result and rounds it to
  53 bits, to nearest and ties to even, as IEEE 754 does. The exponent is not bounded:
  overflow to infinity, subnormal numbers, infinities and NaN are outside the model.
\<close>

datatype float64 = Float64 (mantissa: int) (exponent: int)

function bit_length :: "int \<Rightarrow> nat" where
  "bit_length m = (if m \<le> 0 then 0 else Suc (bit_length (m div 2)))"
  by pat_completeness auto
termination
  by (relation "measure nat") auto

declare bit_length.simps [simp del]

fun float64_round :: "float64 \<Rightarrow> float64" where
  "float64_round (Float64 m e) =
     (if bit_length \<bar>m\<bar> \<le> 53 then Float64 m e
      else
        let s = bit_length \<bar>m\<bar> - 53;
            q = \<bar>m\<bar> div 2 ^ s;
            r = \<bar>m\<bar> mod 2 ^ s;
            half = 2 ^ (s - 1);
            q = (if half < r \<or> (r = half \<and> odd q) then q + 1 else q)
        in Float64 (sgn m * q) (e + int s))"

fun float64_sub :: "float64 \<Rightarrow> float64 \<Rightarrow> float64" where
  "float64_sub (Float64 m1 e1) (Float64 m2 e2) =
     (let e = min e1 e2
      in float64_round (Float64 (m1 * 2 ^ nat (e1 - e) - m2 * 2 ^ nat (e2 - e)) e))"

fun float64_mul :: "float64 \<Rightarrow> float64 \<Rightarrow> float64" where
  "float64_mul (Float64 m1 e1) (Float64 m2 e2) =
     float64_round (Float64 (m1 * m2) (e1 + e2))"

text \<open>The conversion \<open>float64(i)\<close> of an \<open>int\<close>.\<close>

definition float64_of_int :: "go_int \<Rightarrow> float64" where
  "float64_of_int i = float64_round (Float64 (sint i) 0)"

text \<open>The integer part of a float, the fraction discarded (truncation towards zero).\<close>

fun float64_trunc :: "float64 \<Rightarrow> int" where
  "float64_trunc (Float64 m e) =
     (if 0 \<le> e then m * 2 ^ nat e else sgn m * (\<bar>m\<bar> div 2 ^ nat (- e)))"

text \<open>
  The \<open>float64\<close> nearest to the decimal literal \<open>p / 10 ^ k\<close> (for \<open>0 \<le> p\<close>), as the Go
  compiler converts a floating-point constant: the quotient is taken with 64 bits more
  than the divisor has and a sticky last bit, then rounded.
\<close>

definition float64_of_decimal :: "int \<Rightarrow> nat \<Rightarrow> float64" where
  "float64_of_decimal p k =
     (let s = 64 + bit_length p + bit_length (10 ^ k);
          q = (p * 2 ^ s) div 10 ^ k;
          q = (if (p * 2 ^ s) mod 10 ^ k = 0 then 2 * q else 2 * q + 1)
      in float64_round (Float64 q (- int s - 1)))"

subsection \<open>Dynamic values, maps and what the code leaves open\<close>

text \<open>
  An argument of type \<open>interface{}\<close>: the dynamic types \<open>valueToString\<close> distinguishes,
  and \<open>VOther\<close> for a value of any other dynamic type.
\<close>

datatype Value = VString string | VInt go_int | VFloat64 float64 | VBool bool | VOther

text \<open>
  A \<open>map[string]string\<close> holds each key once: an association list with distinct keys,
  \<open>m[k] = v\<close> being \<open>AList.update k v m\<close> and \<open>len(m)\<close> its length. The position of an
  entry in the list means nothing: a \<open>range\<close> statement visits the entries in an order
  Go does not specify, which may differ from one statement to the next.
\<close>

type_synonym Fields = "(string \<times> string) list"

type_synonym handle = nat

text \<open>
  What a call reads from outside the program or what Go leaves open:
  \<^item> \<open>now\<close>: the text \<open>time.Now().Format(time.RFC3339)\<close> returns during the call;
  \<^item> \<open>range_order n m\<close>: the sequence of entries the \<open>n\<close>-th \<open>range\<close> statement executed by
    the call visits on the map \<open>m\<close>;
  \<^item> \<open>OpenFile path\<close>: the file \<open>os.OpenFile\<close> opens, \<open>None\<close> when it returns an error;
  \<^item> \<open>int_of_unrepresentable f\<close>: the result of \<open>int(f)\<close> when the integer part of \<open>f\<close> is
    outside \<open>int\<close> (implementation-dependent in Go).
\<close>

record Env =
  now :: string
  range_order :: "nat \<Rightarrow> Fields \<Rightarrow> Fields"
  OpenFile :: "string \<Rightarrow> handle option"
  int_of_unrepresentable :: "float64 \<Rightarrow> go_int"

text \<open>Every \<open>range\<close> statement visits each entry of its map exactly once.\<close>

definition range_visits_each_entry_once :: "Env \<Rightarrow> bool" where
  "range_visits_each_entry_once env \<longleftrightarrow> (\<forall>n m. mset (range_order env n m) = mset m)"

text \<open>The conversion \<open>int(f)\<close> of a \<open>float64\<close>.\<close>

definition int_of_float64 :: "Env \<Rightarrow> float64 \<Rightarrow> go_int" where
  "int_of_float64 env f =
     (if - (2 ^ 63) \<le> float64_trunc f \<and> float64_trunc f < 2 ^ 63
      then word_of_int (float64_trunc f)
      else int_of_unrepresentable env f)"

subsection \<open>\<open>floatToString\<close>, \<open>valueToString\<close>, \<open>formatMessage\<close>\<close>

definition floatToString :: "Env \<Rightarrow> float64 \<Rightarrow> string" where
  "floatToString env f =
     (if mantissa f = 0 then ''0.00''
      else
        let integerPart = int_of_float64 env f;
            decimalPart = int_of_float64 env
              (float64_mul (float64_sub f (float64_of_int integerPart)) (Float64 100 0));
            result = [] @ Itoa integerPart;
            result = result @ ''.'';
            result = (if decimalPart <s 10 then result @ ''0'' else result);
            result = result @ Itoa decimalPart
        in result)"

fun valueToString :: "Env \<Rightarrow> Value \<Rightarrow> string" where
  "valueToString env (VString v) = v"
| "valueToString env (VInt v) = Itoa v"
| "valueToString env (VFloat64 v) = floatToString env v"
| "valueToString env (VBool v) = (if v then ''true'' else ''false'')"
| "valueToString env VOther = ''unknown''"

text \<open>
  \<open>string(format[i])\<close> converts the byte to the UTF-8 encoding of the code point of that
  number: one byte below 128, two bytes from 128 on.
\<close>

definition string_of_byte :: "char \<Rightarrow> string" where
  "string_of_byte c =
     (if (of_char c :: nat) < 128 then [c]
      else [char_of (192 + (of_char c :: nat) div 64), char_of (128 + (of_char c :: nat) mod 64)])"

text \<open>
  The loop of \<open>formatMessage\<close>. The first argument is \<open>format[i:]\<close>, the part of the format
  still to read; the second is \<open>args[argIndex:]\<close>; the third is \<open>result\<close>. Reading
  \<open>args[argIndex]\<close> past the end of \<open>args\<close> panics, and so does a failed type assertion
  \<open>.(int)\<close> or \<open>.(float64)\<close>. After a \<open>%\<close> that is not the last byte, a byte other than
  \<open>s\<close>, \<open>d\<close>, \<open>f\<close> matches no \<open>case\<close>: nothing is appended and only the \<open>%\<close> is passed.
\<close>

fun formatMessage_loop :: "Env \<Rightarrow> string \<Rightarrow> Value list \<Rightarrow> string \<Rightarrow> fault + string" where
  "formatMessage_loop env [] args result = Inr result"
| "formatMessage_loop env [c] args result = Inr (result @ string_of_byte c)"
| "formatMessage_loop env (c # d # rest) args result =
     (if c = CHR ''%'' then
        (if d = CHR ''s'' then
           (case args of
              [] \<Rightarrow> Inl IndexOutOfRange
            | a # args' \<Rightarrow> formatMessage_loop env rest args' (result @ valueToString env a))
         else if d = CHR ''d'' then
           (case args of
              [] \<Rightarrow> Inl IndexOutOfRange
            | VInt i # args' \<Rightarrow> formatMessage_loop env rest args' (result @ Itoa i)
            | _ # args' \<Rightarrow> Inl TypeAssertionFailed)
         else if d = CHR ''f'' then
           (case args of
              [] \<Rightarrow> Inl IndexOutOfRange
            | VFloat64 f # args' \<Rightarrow> formatMessage_loop env rest args' (result @ floatToString env f)
            | _ # args' \<Rightarrow> Inl TypeAssertionFailed)
         else formatMessage_loop env (d # rest) args result)
      else formatMessage_loop env (d # rest) args (result @ string_of_byte c))"

definition formatMessage :: "Env \<Rightarrow> string \<Rightarrow> Value list \<Rightarrow> fault + string" where
  "formatMessage env format args = formatMessage_loop env format args []"

subsection \<open>The same three functions in \<open>logger.go\<close>\<close>

definition troLogger_floatToString :: "Env \<Rightarrow> float64 \<Rightarrow> fault + string" where
  "troLogger_floatToString env f =
     (if mantissa f = 0 then Inr ''0.00''
      else
        let integerPart = int_of_float64 env f;
            decimalPart = int_of_float64 env
              (float64_mul (float64_sub f (float64_of_int integerPart)) (Float64 100 0))
        in case intToString integerPart of
             Inl e \<Rightarrow> Inl e
           | Inr ip \<Rightarrow>
               (let result = [] @ ip;
                    result = result @ ''.'';
                    result = (if decimalPart <s 10 then result @ ''0'' else result)
                in case intToString decimalPart of
                     Inl e \<Rightarrow> Inl e
                   | Inr dp \<Rightarrow> Inr (result @ dp)))"

fun troLogger_valueToString :: "Env \<Rightarrow> Value \<Rightarrow> fault + string" where
  "troLogger_valueToString env (VString v) = Inr v"
| "troLogger_valueToString env (VInt v) = intToString v"
| "troLogger_valueToString env (VFloat64 v) = troLogger_floatToString env v"
| "troLogger_valueToString env (VBool v) = Inr (if v then ''true'' else ''false'')"
| "troLogger_valueToString env VOther = Inr ''unknown''"

text \<open>
  In \<open>logger.go\<close> the byte after a \<open>%\<close> is always skipped (\<open>i++\<close> follows the \<open>switch\<close>),
  \<open>%s\<close> asserts a string, there is no \<open>%f\<close>, and a byte is appended as it is.
\<close>

fun troLogger_formatMessage_loop :: "string \<Rightarrow> Value list \<Rightarrow> string \<Rightarrow> fault + string" where
  "troLogger_formatMessage_loop [] args result = Inr result"
| "troLogger_formatMessage_loop [c] args result = Inr (result @ [c])"
| "troLogger_formatMessage_loop (c # nextChar # rest) args result =
     (if c = CHR ''%'' then
        (if nextChar = CHR ''s'' then
           (case args of
              [] \<Rightarrow> Inl IndexOutOfRange
            | VString s # args' \<Rightarrow> troLogger_formatMessage_loop rest args' (result @ s)
            | _ # args' \<Rightarrow> Inl TypeAssertionFailed)
         else if nextChar = CHR ''d'' then
           (case args of
              [] \<Rightarrow> Inl IndexOutOfRange
            | VInt i # args' \<Rightarrow>
                (case intToString i of
                   Inl e \<Rightarrow> Inl e
                 | Inr s \<Rightarrow> troLogger_formatMessage_loop rest args' (result @ s))
            | _ # args' \<Rightarrow> Inl TypeAssertionFailed)
         else troLogger_formatMessage_loop rest args result)
      else troLogger_formatMessage_loop (nextChar # rest) args (result @ [c]))"

definition troLogger_formatMessage :: "string \<Rightarrow> Value list \<Rightarrow> fault + string" where
  "troLogger_formatMessage format args = troLogger_formatMessage_loop format args []"

section \<open>The logger\<close>

subsection \<open>Levels\<close>

datatype LogLevel = DebugLevel | InfoLevel | WarnLevel | ErrorLevel | PanicLevel | TraceLevel

text \<open>
  \<open>LogLevel\<close> is an \<open>int\<close> whose constants are numbered by \<open>iota\<close>; \<open>rank\<close> is that number.
  The emission methods pass these six constants only.
\<close>

fun rank :: "LogLevel \<Rightarrow> nat" where
  "rank DebugLevel = 0"
| "rank InfoLevel = 1"
| "rank WarnLevel = 2"
| "rank ErrorLevel = 3"
| "rank PanicLevel = 4"
| "rank TraceLevel = 5"

definition logLevelStrings :: "string list" where
  "logLevelStrings = [''DEBU'', ''INFO'', ''WARN'', ''ERRO'', ''PANI'', ''TRAC'', ''UNKNOWN'']"

text \<open>The escape sequence \<open>"\033[0m"\<close>.\<close>

definition reset :: string where
  "reset = CHR 0x1B # ''[0m''"

fun getColor :: "LogLevel \<Rightarrow> string" where
  "getColor DebugLevel = CHR 0x1B # ''[36m''"
| "getColor InfoLevel = CHR 0x1B # ''[32m''"
| "getColor WarnLevel = CHR 0x1B # ''[33m''"
| "getColor ErrorLevel = CHR 0x1B # ''[31m''"
| "getColor _ = CHR 0x1B # ''[0m''"

fun logLevelFromString :: "string \<Rightarrow> LogLevel" where
  "logLevelFromString levelStr =
     (if levelStr = ''debug'' then DebugLevel
      else if levelStr = ''info'' then InfoLevel
      else if levelStr = ''warn'' then WarnLevel
      else if levelStr = ''error'' then ErrorLevel
      else if levelStr = ''panic'' then PanicLevel
      else if levelStr = ''trace'' then TraceLevel
      else InfoLevel)"

subsection \<open>Loggers and the state of the process\<close>

text \<open>
  A \<open>Logger\<close> struct. \<open>output\<close> is the \<open>io.Writer\<close> (\<open>None\<close> for a nil interface), \<open>file\<close> the
  \<open>*os.File\<close> (\<open>None\<close> for nil), \<open>fields_ref\<close> the reference held by the field
  \<open>fields\<close> to its map object. The mutex \<open>mu\<close>
  has no content in a sequential run and is left out.
\<close>

type_synonym addr = nat

record Logger =
  level :: LogLevel
  "output" :: "handle option"
  "file" :: "handle option"
  colored :: bool
  fields_ref :: addr

text \<open>
  The state the code reads and writes: the counter \<open>logIDCounter\<close> (an \<open>int32\<close>), the
  buffers in \<open>bufferPool\<close>, the map objects and the \<open>Logger\<close> structs allocated so far (an
  address is the index of the object), and the \<open>Write\<close> calls made on the sinks, in the
  order they were made. A \<open>*Logger\<close> outside the allocated structs stands for nil.
\<close>

record World =
  logIDCounter :: "32 word"
  bufferPool :: "string list"
  map_heap :: "Fields list"
  logger_heap :: "Logger list"
  writes :: "(handle \<times> string) list"

definition logger_at :: "World \<Rightarrow> addr \<Rightarrow> Logger option" where
  "logger_at w l = (if l < length (logger_heap w) then Some (logger_heap w ! l) else None)"

text \<open>
  The entries of the map object at an address. \<open>NewLogger\<close> and \<open>AddField\<close> allocate the
  map of every logger they make; a reference to no allocated map reads as a nil map, which
  has no entries.
\<close>

definition map_at :: "World \<Rightarrow> addr \<Rightarrow> Fields" where
  "map_at w a = (if a < length (map_heap w) then map_heap w ! a else [])"

text \<open>\<open>make(map[string]string)\<close> allocates a new, empty map object.\<close>

definition make_map :: "World \<Rightarrow> addr \<times> World" where
  "make_map w = (length (map_heap w), w\<lparr>map_heap := map_heap w @ [[]]\<rparr>)"

text \<open>\<open>&Logger{...}\<close> allocates a new struct.\<close>

definition new_Logger :: "Logger \<Rightarrow> World \<Rightarrow> addr \<times> World" where
  "new_Logger lg w = (length (logger_heap w), w\<lparr>logger_heap := logger_heap w @ [lg]\<rparr>)"

text \<open>The assignment \<open>m[k] = v\<close> on the map object at address \<open>a\<close>.\<close>

definition map_assign :: "addr \<Rightarrow> string \<Rightarrow> string \<Rightarrow> World \<Rightarrow> World" where
  "map_assign a k v w = w\<lparr>map_heap := (map_heap w)[a := AList.update k v (map_at w a)]\<rparr>"

text \<open>\<open>atomic.AddInt32(&logIDCounter, delta)\<close>: adds and returns the new value.\<close>

definition AddInt32_logIDCounter :: "32 word \<Rightarrow> World \<Rightarrow> 32 word \<times> World" where
  "AddInt32_logIDCounter delta w =
     (logIDCounter w + delta, w\<lparr>logIDCounter := logIDCounter w + delta\<rparr>)"

definition Write :: "handle \<Rightarrow> string \<Rightarrow> World \<Rightarrow> World" where
  "Write h bytes w = w\<lparr>writes := writes w @ [(h, bytes)]\<rparr>"

text \<open>\<open>bufferPool.Get()\<close>: a buffer of the pool, or a new empty one.\<close>

fun bufferPool_Get :: "string list \<Rightarrow> string \<times> string list" where
  "bufferPool_Get [] = ([], [])"
| "bufferPool_Get (b # pool) = (b, pool)"

subsection \<open>Rendering and emission (package \<open>trolog\<close>)\<close>

text \<open>
  The two field loops, \<open>for key, value := range m\<close>, on the sequence of entries the
  \<open>range\<close> statement visits.
\<close>

fun append_fields :: "string \<Rightarrow> Fields \<Rightarrow> string" where
  "append_fields buf [] = buf"
| "append_fields buf ((key, val) # kvs) =
     append_fields (buf @ '' '' @ key @ [CHR '':'', CHR '' '', CHR 0x22] @ val @ [CHR 0x22]) kvs"

text \<open>
  \<open>buildLogMessage\<close>; \<open>ord_fields\<close> and \<open>ord_extra\<close> are the orders of its two \<open>range\<close>
  statements.
\<close>

definition buildLogMessage ::
  "(Fields \<Rightarrow> Fields) \<Rightarrow> (Fields \<Rightarrow> Fields) \<Rightarrow> LogLevel \<Rightarrow> string \<Rightarrow> string \<Rightarrow> Fields \<Rightarrow> Fields
     \<Rightarrow> bool \<Rightarrow> 32 word \<Rightarrow> string" where
  "buildLogMessage ord_fields ord_extra lvl timestamp message flds extraFields col logID =
     (let logBuf = [] @ ''ID:'';
          logBuf = logBuf @ FormatInt (sint logID);
          logBuf = logBuf @ '' '';
          logBuf = (if col
                    then logBuf @ getColor lvl @ logLevelStrings ! rank lvl @ reset
                    else logBuf @ logLevelStrings ! rank lvl);
          logBuf = logBuf @ '' '';
          logBuf = logBuf @ timestamp;
          logBuf = logBuf @ '' '';
          logBuf = logBuf @ message;
          logBuf = (if 0 < length flds \<or> 0 < length extraFields then logBuf @ '','' else logBuf);
          logBuf = append_fields logBuf (ord_fields flds);
          logBuf = append_fields logBuf (ord_extra extraFields);
          logBuf = logBuf @ [CHR 0x0A]
      in logBuf)"

text \<open>
  \<open>log\<close>. The result is the panic, if any, and the state the call leaves. The receiver \<open>l\<close>
  is first dereferenced at \<open>l.mu.Lock()\<close>; \<open>l.output.Write\<close> on a nil writer panics. The
  deferred \<open>bufferPool.Put(buf)\<close> runs on every exit.
\<close>

definition log ::
  "Env \<Rightarrow> addr \<Rightarrow> LogLevel \<Rightarrow> string \<Rightarrow> Fields \<Rightarrow> World \<Rightarrow> fault option \<times> World" where
  "log env l lvl message extraFields w =
     (let (logID, w) = AddInt32_logIDCounter 1 w;
          (buf, pool) = bufferPool_Get (bufferPool w);
          buf = take 0 buf;
          timestamp = now env;
          buf = buf @ ''ID:'';
          buf = buf @ FormatInt (sint logID);
          buf = buf @ '' '';
          buf = (if lvl = DebugLevel \<or> lvl = InfoLevel
                 then buf @ getColor lvl @ logLevelStrings ! rank lvl @ reset
                 else buf @ getColor lvl @ logLevelStrings ! rank lvl);
          buf = buf @ '' '';
          buf = buf @ timestamp;
          buf = buf @ '' '';
          buf = buf @ message
      in case logger_at w l of
           None \<Rightarrow> (Some NilDereference, w\<lparr>bufferPool := buf # pool\<rparr>)
         | Some lg \<Rightarrow>
             (let flds = map_at w (fields_ref lg);
                  buf = (if 0 < length flds \<or> 0 < length extraFields then buf @ '','' else buf);
                  buf = append_fields buf (range_order env 0 flds);
                  buf = append_fields buf (range_order env 1 extraFields);
                  buf = buf @ [CHR 0x0A];
                  w = (case file lg of
                         None \<Rightarrow> w
                       | Some f \<Rightarrow>
                           Write f (buildLogMessage (range_order env 2) (range_order env 3)
                                      lvl timestamp message flds extraFields False logID) w)
              in if rank (level lg) \<le> rank lvl then
                   (case output lg of
                      None \<Rightarrow> (Some NilDereference, w\<lparr>bufferPool := buf # pool\<rparr>)
                    | Some out \<Rightarrow>
                        (let w = Write out buf w;
                             w = (if (lvl = WarnLevel \<or> lvl = ErrorLevel) \<and> colored lg
                                  then Write out reset w else w)
                         in (None, w\<lparr>bufferPool := buf # pool\<rparr>)))
                 else (None, w\<lparr>bufferPool := buf # pool\<rparr>)))"

text \<open>The emission methods; each passes \<open>nil\<close> for \<open>extraFields\<close>.\<close>

definition Info :: "Env \<Rightarrow> addr \<Rightarrow> string \<Rightarrow> World \<Rightarrow> fault option \<times> World" where
  "Info env l message w = log env l InfoLevel message [] w"

definition Warn :: "Env \<Rightarrow> addr \<Rightarrow> string \<Rightarrow> World \<Rightarrow> fault option \<times> World" where
  "Warn env l message w = log env l WarnLevel message [] w"

definition Error :: "Env \<Rightarrow> addr \<Rightarrow> string \<Rightarrow> World \<Rightarrow> fault option \<times> World" where
  "Error env l message w = log env l ErrorLevel message [] w"

definition Panic :: "Env \<Rightarrow> addr \<Rightarrow> string \<Rightarrow> World \<Rightarrow> fault option \<times> World" where
  "Panic env l message w = log env l PanicLevel message [] w"

definition Debug :: "Env \<Rightarrow> addr \<Rightarrow> string \<Rightarrow> World \<Rightarrow> fault option \<times> World" where
  "Debug env l message w = log env l DebugLevel message [] w"

definition Trace :: "Env \<Rightarrow> addr \<Rightarrow> string \<Rightarrow> World \<Rightarrow> fault option \<times> World" where
  "Trace env l message w = log env l TraceLevel message [] w"

text \<open>
  The formatted methods \<open>Infof\<close>, \<open>Debugf\<close>, \<open>Warnf\<close>, \<open>Errorf\<close>, \<open>Panicf\<close>, \<open>Tracef\<close> differ in
  the level only: \<open>logf lvl\<close> is the method of level \<open>lvl\<close>. The message is formatted
  before \<open>log\<close> is entered, so a panic of \<open>formatMessage\<close> leaves the state as it was.
\<close>

definition logf ::
  "LogLevel \<Rightarrow> Env \<Rightarrow> addr \<Rightarrow> string \<Rightarrow> Value list \<Rightarrow> World \<Rightarrow> fault option \<times> World" where
  "logf lvl env l format args w =
     (case formatMessage env format args of
        Inl e \<Rightarrow> (Some e, w)
      | Inr message \<Rightarrow> log env l lvl message [] w)"

subsection \<open>Construction and \<open>AddField\<close> (package \<open>trolog\<close>)\<close>

definition NewLogger ::
  "Env \<Rightarrow> string \<Rightarrow> handle option \<Rightarrow> bool \<Rightarrow> string \<Rightarrow> World \<Rightarrow> addr \<times> World" where
  "NewLogger env levelStr out col logFilePath w =
     (let lvl = logLevelFromString levelStr;
          logFile = (if logFilePath \<noteq> [] then OpenFile env logFilePath else None);
          (m, w) = make_map w
      in new_Logger \<lparr>level = lvl, output = out, file = logFile, colored = col, fields_ref = m\<rparr> w)"

text \<open>
  \<open>AddField\<close>. The struct literal reads \<open>l.level\<close> first, so a nil receiver panics before
  anything is allocated. The copy loop runs over the entries in the order its \<open>range\<close>
  statement visits them.
\<close>

definition AddField ::
  "Env \<Rightarrow> addr \<Rightarrow> string \<Rightarrow> Value \<Rightarrow> World \<Rightarrow> (fault + addr) \<times> World" where
  "AddField env l key val w =
     (case logger_at w l of
        None \<Rightarrow> (Inl NilDereference, w)
      | Some lg \<Rightarrow>
          (let (m, w) = make_map w;
               (newLogger, w) = new_Logger
                  \<lparr>level = level lg, output = output lg, file = file lg,
                   colored = colored lg, fields_ref = m\<rparr> w;
               w = foldl (\<lambda>w (k, v). map_assign m k v w) w
                     (range_order env 0 (map_at w (fields_ref lg)));
               w = map_assign m key (valueToString env val) w
           in (Inr newLogger, w)))"

subsection \<open>The functions of \<open>logger.go\<close> that differ\<close>

text \<open>In \<open>logger.go\<close> the line starts with the level code, and the ID follows the timestamp.\<close>

definition troLogger_buildLogMessage ::
  "(Fields \<Rightarrow> Fields) \<Rightarrow> (Fields \<Rightarrow> Fields) \<Rightarrow> LogLevel \<Rightarrow> string \<Rightarrow> string \<Rightarrow> Fields \<Rightarrow> Fields
     \<Rightarrow> bool \<Rightarrow> 32 word \<Rightarrow> string" where
  "troLogger_buildLogMessage ord_fields ord_extra lvl timestamp message flds extraFields col logID =
     (let logBuf = (if col
                    then [] @ getColor lvl @ logLevelStrings ! rank lvl @ reset
                    else [] @ logLevelStrings ! rank lvl);
          logBuf = logBuf @ '' '';
          logBuf = logBuf @ timestamp;
          logBuf = logBuf @ '' '';
          logBuf = logBuf @ ''ID:'';
          logBuf = logBuf @ FormatInt (sint logID);
          logBuf = logBuf @ '' '';
          logBuf = logBuf @ message;
          logBuf = (if 0 < length flds \<or> 0 < length extraFields then logBuf @ '','' else logBuf);
          logBuf = append_fields logBuf (ord_fields flds);
          logBuf = append_fields logBuf (ord_extra extraFields);
          logBuf = logBuf @ [CHR 0x0A]
      in logBuf)"

definition troLogger_log ::
  "Env \<Rightarrow> addr \<Rightarrow> LogLevel \<Rightarrow> string \<Rightarrow> Fields \<Rightarrow> World \<Rightarrow> fault option \<times> World" where
  "troLogger_log env l lvl message extraFields w =
     (let (logID, w) = AddInt32_logIDCounter 1 w;
          (buf, pool) = bufferPool_Get (bufferPool w);
          buf = take 0 buf;
          timestamp = now env;
          buf = (if lvl = DebugLevel \<or> lvl = InfoLevel
                 then buf @ getColor lvl @ logLevelStrings ! rank lvl @ reset
                 else buf @ getColor lvl @ logLevelStrings ! rank lvl);
          buf = buf @ '' '';
          buf = buf @ timestamp;
          buf = buf @ '' '';
          buf = buf @ ''ID:'';
          buf = buf @ FormatInt (sint logID);
          buf = buf @ '' '';
          buf = buf @ message
      in case logger_at w l of
           None \<Rightarrow> (Some NilDereference, w\<lparr>bufferPool := buf # pool\<rparr>)
         | Some lg \<Rightarrow>
             (let flds = map_at w (fields_ref lg);
                  buf = (if 0 < length flds \<or> 0 < length extraFields then buf @ '','' else buf);
                  buf = append_fields buf (range_order env 0 flds);
                  buf = append_fields buf (range_order env 1 extraFields);
                  buf = buf @ [CHR 0x0A];
                  w = (case file lg of
                         None \<Rightarrow> w
                       | Some f \<Rightarrow>
                           Write f (troLogger_buildLogMessage (range_order env 2) (range_order env 3)
                                      lvl timestamp message flds extraFields False logID) w)
              in if rank (level lg) \<le> rank lvl then
                   (case output lg of
                      None \<Rightarrow> (Some NilDereference, w\<lparr>bufferPool := buf # pool\<rparr>)
                    | Some out \<Rightarrow>
                        (let w = Write out buf w;
                             w = (if (lvl = WarnLevel \<or> lvl = ErrorLevel) \<and> colored lg
                                  then Write out reset w else w)
                         in (None, w\<lparr>bufferPool := buf # pool\<rparr>)))
                 else (None, w\<lparr>bufferPool := buf # pool\<rparr>)))"

text \<open>
  \<open>NewLogger\<close> of \<open>logger.go\<close> takes the level itself and returns \<open>(nil, err)\<close>, here \<open>None\<close>,
  when the file cannot be opened.
\<close>

definition troLogger_NewLogger ::
  "Env \<Rightarrow> LogLevel \<Rightarrow> handle option \<Rightarrow> bool \<Rightarrow> string \<Rightarrow> World \<Rightarrow> addr option \<times> World" where
  "troLogger_NewLogger env lvl out col logFilePath w =
     (if logFilePath \<noteq> [] \<and> OpenFile env logFilePath = None then (None, w)
      else
        let logFile = (if logFilePath \<noteq> [] then OpenFile env logFilePath else None);
            (m, w) = make_map w;
            (a, w) = new_Logger
               \<lparr>level = lvl, output = out, file = logFile, colored = col, fields_ref = m\<rparr> w
        in (Some a, w))"

definition troLogger_AddField ::
  "Env \<Rightarrow> addr \<Rightarrow> string \<Rightarrow> Value \<Rightarrow> World \<Rightarrow> (fault + addr) \<times> World" where
  "troLogger_AddField env l key val w =
     (case logger_at w l of
        None \<Rightarrow> (Inl NilDereference, w)
      | Some lg \<Rightarrow>
          (let (m, w) = make_map w;
               (newLogger, w) = new_Logger
                  \<lparr>level = level lg, output = output lg, file = file lg,
                   colored = colored lg, fields_ref = m\<rparr> w;
               w = foldl (\<lambda>w (k, v). map_assign m k v w) w
                     (range_order env 0 (map_at w (fields_ref lg)))
           in case troLogger_valueToString env val of
                Inl e \<Rightarrow> (Inl e, w)
              | Inr s \<Rightarrow> (Inr newLogger, map_assign m key s w)))"

subsection \<open>Notions used to state the properties\<close>

text \<open>
  The content of \<open>*buf\<close> when \<open>log\<close> of package \<open>trolog\<close> passes it to \<open>l.output.Write\<close>
  (lines 110 to 152 of the function, for the entries \<open>flds\<close> of \<open>l.fields\<close>).
\<close>

definition console_line :: "Env \<Rightarrow> LogLevel \<Rightarrow> string \<Rightarrow> Fields \<Rightarrow> Fields \<Rightarrow> 32 word \<Rightarrow> string" where
  "console_line env lvl message flds extraFields logID =
     ''ID:'' @ FormatInt (sint logID) @ '' ''
     @ getColor lvl @ logLevelStrings ! rank lvl
     @ (if lvl = DebugLevel \<or> lvl = InfoLevel then reset else [])
     @ '' '' @ now env @ '' '' @ message
     @ (if 0 < length flds \<or> 0 < length extraFields then '','' else [])
     @ append_fields [] (range_order env 0 flds)
     @ append_fields [] (range_order env 1 extraFields)
     @ [CHR 0x0A]"

text \<open>The same for \<open>log\<close> of \<open>logger.go\<close> (lines 94 to 138).\<close>

definition troLogger_console_line ::
  "Env \<Rightarrow> LogLevel \<Rightarrow> string \<Rightarrow> Fields \<Rightarrow> Fields \<Rightarrow> 32 word \<Rightarrow> string" where
  "troLogger_console_line env lvl message flds extraFields logID =
     getColor lvl @ logLevelStrings ! rank lvl
     @ (if lvl = DebugLevel \<or> lvl = InfoLevel then reset else [])
     @ '' '' @ now env @ '' '' @ ''ID:'' @ FormatInt (sint logID) @ '' '' @ message
     @ (if 0 < length flds \<or> 0 < length extraFields then '','' else [])
     @ append_fields [] (range_order env 0 flds)
     @ append_fields [] (range_order env 1 extraFields)
     @ [CHR 0x0A]"

text \<open>
  The invariant of the heap: the map of every logger has been allocated, and a map object
  holds each key once. \<open>NewLogger\<close> and \<open>AddField\<close> keep it.
\<close>

definition World_invariant :: "World \<Rightarrow> bool" where
  "World_invariant w \<longleftrightarrow>
     (\<forall>lg \<in> set (logger_heap w). fields_ref lg < length (map_heap w))
     \<and> (\<forall>m \<in> set (map_heap w). distinct (map fst m))"

text \<open>
  A sequence of emission calls, run one after the other with no other emitter: each call
  is \<open>l.log(lvl, message, extraFields)\<close> in its own environment. A call that panics has
  still changed the state. \<open>issued_IDs\<close> lists the value of the counter right after each
  call, which is the \<open>logID\<close> of that call.
\<close>

type_synonym emission = "Env \<times> addr \<times> LogLevel \<times> string \<times> Fields"

fun emit :: "emission \<Rightarrow> World \<Rightarrow> World" where
  "emit (env, l, lvl, message, extraFields) w = snd (log env l lvl message extraFields w)"

fun issued_IDs :: "emission list \<Rightarrow> World \<Rightarrow> 32 word list" where
  "issued_IDs [] w = []"
| "issued_IDs (c # cs) w = logIDCounter (emit c w) # issued_IDs cs (emit c w)"

text \<open>
  The specification compares the two renderings "after removing ANSI escape sequences".
  \<open>spec_strip_escapes\<close> follows these words: it removes every sequence made of the byte
  ESC, an opening bracket, digits and semicolons, and one final byte; an ESC that starts
  no such sequence is removed alone.
\<close>

datatype strip_state = Plain | AfterEsc | InSequence

fun spec_strip_from :: "strip_state \<Rightarrow> string \<Rightarrow> string" where
  "spec_strip_from st [] = []"
| "spec_strip_from Plain (c # cs) =
     (if c = CHR 0x1B then spec_strip_from AfterEsc cs else c # spec_strip_from Plain cs)"
| "spec_strip_from AfterEsc (c # cs) =
     (if c = CHR ''['' then spec_strip_from InSequence cs
      else if c = CHR 0x1B then spec_strip_from AfterEsc cs
      else c # spec_strip_from Plain cs)"
| "spec_strip_from InSequence (c # cs) =
     (if c \<in> set ''0123456789;'' then spec_strip_from InSequence cs
      else spec_strip_from Plain cs)"

definition spec_strip_escapes :: "string \<Rightarrow> string" where
  "spec_strip_escapes s = spec_strip_from Plain s"

text \<open>What a sink has received: the bytes of the \<open>Write\<close> calls on it, in order.\<close>

definition received :: "handle \<Rightarrow> (handle \<times> string) list \<Rightarrow> string" where
  "received h ws = concat (map snd (filter (\<lambda>(h', bytes). h' = h) ws))"

text \<open>
  What an emission may change: the counter, the buffer pool and the \<open>Write\<close> calls made.
  The \<open>Logger\<close> structs (level, writer, file, color flag, reference to the fields) and the
  map objects (the contents of every field store) are as before.
\<close>

definition unchanged_by_emission :: "World \<Rightarrow> World \<Rightarrow> bool" where
  "unchanged_by_emission w w' \<longleftrightarrow>
     logger_heap w' = logger_heap w \<and> map_heap w' = map_heap w
     \<and> w' = w\<lparr>logIDCounter := logIDCounter w', bufferPool := bufferPool w', writes := writes w'\<rparr>"

subsection \<open>Concrete inputs\<close>

text \<open>
  A process that has not logged yet, and an environment in which every \<open>range\<close> statement
  visits the entries in the order they are stored and every file opens as handle 2.
\<close>

definition fresh_World :: World where
  "fresh_World = \<lparr>logIDCounter = 0, bufferPool = [], map_heap = [], logger_heap = [], writes = []\<rparr>"

definition example_env :: Env where
  "example_env =
     \<lparr>now = ''2024-10-10T10:24:44+06:00'', range_order = (\<lambda>n m. m),
      OpenFile = (\<lambda>path. Some 2), int_of_unrepresentable = (\<lambda>f. 0)\<rparr>"

text \<open>
  The same environment, except that the first \<open>range\<close> statement of \<open>buildLogMessage\<close> (the
  third of the call) visits the entries in the opposite order.
\<close>

definition reversing_env :: Env where
  "reversing_env = example_env\<lparr>range_order := (\<lambda>n m. if n = 2 then rev m else m)\<rparr>"

text \<open>
  \<open>NewLogger("info", sink 1, false, "app.log")\<close> followed by \<open>AddField("user", "alice")\<close> and
  \<open>AddField("n", 5)\<close> on a fresh process: the loggers 0, 1 and 2, with no field, one field
  and two fields.
\<close>

definition example_World :: World where
  "example_World =
     \<lparr>logIDCounter = 0, bufferPool = [],
      map_heap = [[], [(''user'', ''alice'')], [(''user'', ''alice''), (''n'', ''5'')]],
      logger_heap =
        [\<lparr>level = InfoLevel, output = Some 1, file = Some 2, colored = False, fields_ref = 0\<rparr>,
         \<lparr>level = InfoLevel, output = Some 1, file = Some 2, colored = False, fields_ref = 1\<rparr>,
         \<lparr>level = InfoLevel, output = Some 1, file = Some 2, colored = False, fields_ref = 2\<rparr>],
      writes = []\<rparr>"

section \<open>Emission\<close>

subsection \<open>What one call of \<open>log\<close> does\<close>

lemma digits_below_10: "n < 10 \<Longrightarrow> digits n = [''0123456789'' ! nat n]"
  by (subst digits.simps) simp

lemma append_fields_append: "append_fields buf kvs = buf @ append_fields [] kvs"
proof (induction kvs arbitrary: buf)
  case Nil
  show ?case by simp
next
  case (Cons kv kvs)
  obtain k v where kv: "kv = (k, v)" by (cases kv)
  have "append_fields buf (kv # kvs) =
        append_fields (buf @ '' '' @ k @ [CHR '':'', CHR '' '', CHR 0x22] @ v @ [CHR 0x22]) kvs"
    by (simp add: kv)
  also have "\<dots> = (buf @ '' '' @ k @ [CHR '':'', CHR '' '', CHR 0x22] @ v @ [CHR 0x22]) @ append_fields [] kvs"
    by (rule Cons.IH)
  also have "\<dots> = buf @ append_fields [] (kv # kvs)"
    using Cons.IH [of "[] @ '' '' @ k @ [CHR '':'', CHR '' '', CHR 0x22] @ v @ [CHR 0x22]"]
    by (simp add: kv)
  finally show ?case .
qed

text \<open>
  On an allocated logger, \<open>log\<close> increments the counter, leaves the line in the buffer it
  returns to the pool, writes the plain line to the file if there is one, and writes the
  buffer to the writer if the level passes the filter.
\<close>

lemma log_Some:
  assumes "logger_at w l = Some lg"
  shows "log env l lvl message extraFields w =
     (let logID = logIDCounter w + 1;
          line = console_line env lvl message (map_at w (fields_ref lg)) extraFields logID;
          plain = buildLogMessage (range_order env 2) (range_order env 3) lvl (now env) message
                    (map_at w (fields_ref lg)) extraFields False logID;
          ws = writes w @ (case file lg of None \<Rightarrow> [] | Some f \<Rightarrow> [(f, plain)]);
          pool = line # snd (bufferPool_Get (bufferPool w))
      in if rank (level lg) \<le> rank lvl then
           (case output lg of
              None \<Rightarrow> (Some NilDereference, w\<lparr>logIDCounter := logID, bufferPool := pool, writes := ws\<rparr>)
            | Some out \<Rightarrow>
               (None, w\<lparr>logIDCounter := logID, bufferPool := pool,
                  writes := ws @ (out, line) #
                     (if (lvl = WarnLevel \<or> lvl = ErrorLevel) \<and> colored lg then [(out, reset)] else [])\<rparr>))
         else (None, w\<lparr>logIDCounter := logID, bufferPool := pool, writes := ws\<rparr>))"
proof -
  have la: "logger_at (w\<lparr>logIDCounter := logIDCounter w + 1\<rparr>) l = Some lg"
    using assms by (auto simp add: logger_at_def split: if_splits)
  have ma: "map_at (w\<lparr>logIDCounter := logIDCounter w + 1\<rparr>) (fields_ref lg) = map_at w (fields_ref lg)"
    by (simp add: map_at_def)
  show ?thesis
    unfolding log_def AddInt32_logIDCounter_def
    apply (simp only: Let_def split_conv la ma option.case)
    apply (cases "bufferPool w")
     apply (auto simp add: console_line_def Write_def append_fields_append [of "_ @ _"] append_fields_append [of "_ # _"]
                 split: option.splits)
    done
qed

lemma log_None:
  assumes "logger_at w l = None"
  shows "\<exists>buf. log env l lvl message extraFields w =
           (Some NilDereference, w\<lparr>logIDCounter := logIDCounter w + 1, bufferPool := buf\<rparr>)"
proof -
  have la: "logger_at (w\<lparr>logIDCounter := logIDCounter w + 1\<rparr>) l = None"
    using assms by (auto simp add: logger_at_def split: if_splits)
  show ?thesis
    unfolding log_def AddInt32_logIDCounter_def
    apply (simp only: Let_def split_conv la option.case)
    apply (cases "bufferPool w")
     apply auto
    done
qed

subsection \<open>Level filtering\<close>

text \<open>
  C2. For a logger with a writer, a call of \<open>log\<close> at level \<open>L\<close> returns without panic and
  adds to the \<open>Write\<close> calls, in this order: the plain line \<open>buildLogMessage\<close> renders, on the
  file, whenever the logger has a file, whatever \<open>L\<close> and the minimum level are; then, if
  and only if the rank of \<open>L\<close> is at least the rank of the logger's minimum level, the
  rendered line on the writer (followed by the reset sequence for \<open>Warn\<close> and \<open>Error\<close> when
  the logger is colored). The ranks follow the order Debug, Info, Warn, Error, Panic, Trace.
\<close>

theorem console_filtered_by_level_file_unfiltered:
  assumes "logger_at w l = Some lg" and "output lg = Some out"
  shows "rank DebugLevel < rank InfoLevel \<and> rank InfoLevel < rank WarnLevel
         \<and> rank WarnLevel < rank ErrorLevel \<and> rank ErrorLevel < rank PanicLevel
         \<and> rank PanicLevel < rank TraceLevel
         \<and> fst (log env l L message extraFields w) = None \<and>
         writes (snd (log env l L message extraFields w)) =
           writes w
           @ (case file lg of
                None \<Rightarrow> []
              | Some f \<Rightarrow>
                  [(f, buildLogMessage (range_order env 2) (range_order env 3) L (now env) message
                         (map_at w (fields_ref lg)) extraFields False (logIDCounter w + 1))])
           @ (if rank (level lg) \<le> rank L
              then (out, console_line env L message (map_at w (fields_ref lg)) extraFields
                           (logIDCounter w + 1))
                   # (if (L = WarnLevel \<or> L = ErrorLevel) \<and> colored lg then [(out, reset)] else [])
              else [])"
  using assms by (simp add: log_Some Let_def)

theorem console_filtered_by_level_file_unfiltered_witness:
  "logger_at example_World 0 =
     Some \<lparr>level = InfoLevel, output = Some 1, file = Some 2, colored = False, fields_ref = 0\<rparr>
   \<and> writes (snd (log example_env 0 DebugLevel ''x'' [] example_World)) =
         [(2, ''ID:1 DEBU 2024-10-10T10:24:44+06:00 x'' @ [CHR 0x0A])]
   \<and> writes (snd (log example_env 0 WarnLevel ''x'' [] example_World)) =
         [(2, ''ID:1 WARN 2024-10-10T10:24:44+06:00 x'' @ [CHR 0x0A]),
          (1, ''ID:1 '' @ CHR 0x1B # ''[33mWARN 2024-10-10T10:24:44+06:00 x'' @ [CHR 0x0A])]"
proof -
  let ?lg = "\<lparr>level = InfoLevel, output = Some 1, file = Some 2, colored = False, fields_ref = 0\<rparr>"
  have h1: "logger_at example_World 0 = Some ?lg"
    by (simp add: logger_at_def example_World_def)
  have h2: "output ?lg = Some 1"
    by simp
  show ?thesis
    using h1
      console_filtered_by_level_file_unfiltered [OF h1 h2, of example_env DebugLevel "''x''" "[]"]
      console_filtered_by_level_file_unfiltered [OF h1 h2, of example_env WarnLevel "''x''" "[]"]
    by (simp add: example_World_def example_env_def map_at_def buildLogMessage_def
          console_line_def FormatInt_def logLevelStrings_def digits_below_10)
qed

subsection \<open>Frame\<close>

lemma log_frame: "unchanged_by_emission w (snd (log env l lvl message extraFields w))"
proof (cases "logger_at w l")
  case None
  from log_None [OF None, of env lvl message extraFields]
  show ?thesis by (auto simp add: unchanged_by_emission_def)
next
  case (Some lg)
  show ?thesis
    by (simp add: log_Some [OF Some] Let_def unchanged_by_emission_def split: option.splits)
qed

lemma logf_frame: "unchanged_by_emission w (snd (logf lvl env l format args w))"
proof (cases "formatMessage env format args")
  case (Inl e)
  then show ?thesis by (simp add: logf_def unchanged_by_emission_def)
next
  case (Inr message)
  then show ?thesis by (simp add: logf_def log_frame)
qed

text \<open>
  C10. No emission call, plain or formatted, changes a \<open>Logger\<close> struct or a map object:
  minimum level, color flag, writer, file and the contents of every field store are after
  the call what they were before, also when the call panics. Only the counter, the buffer
  pool and the \<open>Write\<close> calls made differ.
\<close>

theorem emission_leaves_loggers_and_fields:
  "unchanged_by_emission w (snd (log env l lvl message extraFields w))
   \<and> unchanged_by_emission w (snd (logf lvl env l format args w))
   \<and> unchanged_by_emission w (snd (Debug env l message w))
   \<and> unchanged_by_emission w (snd (Info env l message w))
   \<and> unchanged_by_emission w (snd (Warn env l message w))
   \<and> unchanged_by_emission w (snd (Error env l message w))
   \<and> unchanged_by_emission w (snd (Panic env l message w))
   \<and> unchanged_by_emission w (snd (Trace env l message w))"
  by (simp add: log_frame logf_frame Debug_def Info_def Warn_def Error_def Panic_def Trace_def)

subsection \<open>Sequence IDs\<close>

lemma logIDCounter_log: "logIDCounter (snd (log env l lvl message extraFields w)) = logIDCounter w + 1"
proof (cases "logger_at w l")
  case None
  from log_None [OF None, of env lvl message extraFields]
  show ?thesis by auto
next
  case (Some lg)
  show ?thesis
    by (simp add: log_Some [OF Some] Let_def split: option.splits)
qed

lemma logIDCounter_emit: "logIDCounter (emit c w) = logIDCounter w + 1"
  by (cases c) (simp add: logIDCounter_log)

lemma issued_IDs_eq:
  "issued_IDs cs w = map (\<lambda>k. logIDCounter w + 1 + of_nat k) [0..<length cs]"
proof (induction cs arbitrary: w)
  case Nil
  show ?case by simp
next
  case (Cons c cs)
  have "map (\<lambda>k. logIDCounter w + 1 + of_nat k) [0..<length (c # cs)] =
        (logIDCounter w + 1) # map (\<lambda>k. logIDCounter w + 1 + of_nat (Suc k)) [0..<length cs]"
    by (simp add: upt_conv_Cons map_Suc_upt [symmetric] del: upt_Suc)
  also have "\<dots> = (logIDCounter w + 1) # map (\<lambda>k. logIDCounter (emit c w) + 1 + of_nat k) [0..<length cs]"
    by (simp add: logIDCounter_emit add.assoc add.commute)
  finally show ?case
    by (simp add: Cons.IH logIDCounter_emit del: upt_Suc)
qed

lemma sint_succ:
  fixes x :: "32 word"
  assumes "sint x \<noteq> 2 ^ 31 - 1"
  shows "sint (x + 1) = sint x + 1"
proof -
  have "sint x < 2 ^ 31" "- (2 ^ 31) \<le> sint x"
    using sint_lt [of x] sint_ge [of x] by simp_all
  with assms have "- (2 ^ 31) \<le> sint x + 1" "sint x + 1 < 2 ^ 31"
    by simp_all
  then have "signed_take_bit 31 (sint x + 1) = sint x + 1"
    by (simp add: signed_take_bit_int_eq_self)
  then show ?thesis
    by (simp add: sint_word_ariths)
qed

lemma distinct_IDs:
  assumes "n \<le> 2 ^ 32"
  shows "distinct (map (\<lambda>k. (c :: 32 word) + 1 + of_nat k) [0..<n])"
proof -
  have "inj_on (\<lambda>k. c + 1 + (of_nat k :: 32 word)) (set [0..<n])"
  proof (rule inj_onI)
    fix x y
    assume x: "x \<in> set [0..<n]" and y: "y \<in> set [0..<n]"
      and eq: "c + 1 + (of_nat x :: 32 word) = c + 1 + of_nat y"
    from x y assms have "x < 2 ^ 32" "y < 2 ^ 32" by simp_all
    moreover from eq have "(of_nat x :: 32 word) = of_nat y" by simp
    ultimately show "x = y"
      by (simp add: word_of_nat_eq_iff take_bit_nat_eq_self)
  qed
  then show ?thesis
    by (simp add: distinct_map)
qed

text \<open>
  C3. Every call of \<open>log\<close> increments the shared counter by exactly one. The IDs issued by
  a sequence of \<open>N\<close> emission calls with no other emitter are the \<open>N\<close> consecutive values
  that follow the initial value of the counter; they are pairwise distinct as long as \<open>N\<close>
  does not exceed the \<open>2 ^ 32\<close> values of an \<open>int32\<close>; each ID is its predecessor plus one in
  32-bit arithmetic, which as a signed number is strictly greater except when the
  predecessor is the largest \<open>int32\<close> and the counter wraps around.
\<close>

theorem sequence_IDs_consecutive:
  "logIDCounter (snd (log env l lvl message extraFields w)) = logIDCounter w + 1
   \<and> issued_IDs cs w = map (\<lambda>k. logIDCounter w + 1 + of_nat k) [0..<length cs]
   \<and> (length cs \<le> 2 ^ 32 \<longrightarrow> distinct (issued_IDs cs w))
   \<and> (\<forall>i. Suc i < length cs \<longrightarrow>
         issued_IDs cs w ! Suc i = issued_IDs cs w ! i + 1
         \<and> (sint (issued_IDs cs w ! i) \<noteq> 2 ^ 31 - 1 \<longrightarrow>
              sint (issued_IDs cs w ! Suc i) = sint (issued_IDs cs w ! i) + 1))"
proof (intro conjI allI impI)
  show "logIDCounter (snd (log env l lvl message extraFields w)) = logIDCounter w + 1"
    by (rule logIDCounter_log)
  show eq: "issued_IDs cs w = map (\<lambda>k. logIDCounter w + 1 + of_nat k) [0..<length cs]"
    by (rule issued_IDs_eq)
  show "distinct (issued_IDs cs w)" if "length cs \<le> 2 ^ 32"
    using that by (simp only: eq distinct_IDs)
  fix i
  assume i: "Suc i < length cs"
  then show step: "issued_IDs cs w ! Suc i = issued_IDs cs w ! i + 1"
    by (simp add: eq)
  show "sint (issued_IDs cs w ! Suc i) = sint (issued_IDs cs w ! i) + 1"
    if "sint (issued_IDs cs w ! i) \<noteq> 2 ^ 31 - 1"
    using sint_succ [OF that] by (simp only: step)
qed

theorem sequence_IDs_consecutive_witness:
  "issued_IDs [(example_env, 0, InfoLevel, ''a'', []), (example_env, 1, DebugLevel, ''b'', []),
               (example_env, 5, WarnLevel, ''c'', [])] example_World = [1, 2, 3]
   \<and> distinct [1, 2, 3 :: 32 word]
   \<and> sint (2 :: 32 word) = sint (1 :: 32 word) + 1"
  using sequence_IDs_consecutive
    [of example_env 0 InfoLevel "''a''" "[]" example_World
        "[(example_env, 0, InfoLevel, ''a'', []), (example_env, 1, DebugLevel, ''b'', []),
          (example_env, 5, WarnLevel, ''c'', [])]"]
  by (simp add: example_World_def upt_conv_Cons)


section \<open>Deriving a logger with \<open>AddField\<close>\<close>

lemma foldl_map_assign:
  assumes "m < length (map_heap w)"
  shows "foldl (\<lambda>w (k, v). map_assign m k v w) w kvs =
         w\<lparr>map_heap := (map_heap w)[m := foldl (\<lambda>al (k, v). AList.update k v al) (map_heap w ! m) kvs]\<rparr>"
  using assms
proof (induction kvs arbitrary: w)
  case Nil
  then show ?case by simp
next
  case (Cons kv kvs)
  obtain k v where kv: "kv = (k, v)" by (cases kv)
  have len: "m < length (map_heap (map_assign m k v w))"
    using Cons.prems by (simp add: map_assign_def)
  show ?case
    using Cons.prems
    by (simp add: kv Cons.IH [OF len]) (simp add: map_assign_def map_at_def)
qed

lemma map_of_foldl_update:
  "map_of (foldl (\<lambda>al (k, v). AList.update k v al) al kvs) = map_of al ++ map_of (rev kvs)"
proof (induction kvs arbitrary: al)
  case Nil
  show ?case by simp
next
  case (Cons kv kvs)
  obtain k v where kv: "kv = (k, v)" by (cases kv)
  show ?case
    by (simp add: kv Cons.IH update_conv' map_add_upd_left)
       (auto simp add: map_add_def fun_eq_iff split: option.splits)
qed

lemma distinct_foldl_update:
  "distinct (map fst al) \<Longrightarrow> distinct (map fst (foldl (\<lambda>al (k, v). AList.update k v al) al kvs))"
proof (induction kvs arbitrary: al)
  case Nil
  then show ?case by simp
next
  case (Cons kv kvs)
  obtain k v where kv: "kv = (k, v)" by (cases kv)
  show ?case
    using Cons.prems by (simp add: kv Cons.IH distinct_update)
qed

lemma map_of_visited:
  assumes "mset kvs = mset al" and "distinct (map fst al)"
  shows "map_of (rev kvs) = map_of al"
proof -
  have "mset (map fst kvs) = mset (map fst al)"
    using assms(1) by (metis mset_map)
  then have d: "distinct (map fst kvs)"
    using assms(2) by (metis mset_eq_imp_distinct_iff)
  have "set (rev kvs) = set al"
    using assms(1) by (metis mset_eq_setD set_rev)
  moreover have "distinct (map fst (rev kvs))"
    using d by (metis distinct_rev rev_map)
  ultimately show ?thesis
    using assms(2) by (simp add: map_of_inject_set)
qed

lemma AddField_Some:
  assumes "logger_at w l = Some base" and "fields_ref base < length (map_heap w)"
  shows "AddField env l key val w =
     (Inr (length (logger_heap w)),
      w\<lparr>map_heap := map_heap w @
           [AList.update key (valueToString env val)
              (foldl (\<lambda>al (k, v). AList.update k v al) []
                 (range_order env 0 (map_at w (fields_ref base))))],
        logger_heap := logger_heap w @
           [\<lparr>level = level base, output = output base, file = file base,
             colored = colored base, fields_ref = length (map_heap w)\<rparr>]\<rparr>)"
proof -
  let ?new = "\<lparr>level = level base, output = output base, file = file base,
               colored = colored base, fields_ref = length (map_heap w)\<rparr>"
  let ?w2 = "w\<lparr>map_heap := map_heap w @ [[]], logger_heap := logger_heap w @ [?new]\<rparr>"
  have m: "length (map_heap w) < length (map_heap ?w2)"
    by simp
  have rd: "map_at ?w2 (fields_ref base) = map_at w (fields_ref base)"
    using assms(2) by (simp add: map_at_def nth_append)
  have fold: "foldl (\<lambda>w' (k, v). map_assign (length (map_heap w)) k v w') ?w2 kvs =
        ?w2\<lparr>map_heap := (map_heap ?w2)[length (map_heap w) :=
            foldl (\<lambda>al (k, v). AList.update k v al) (map_heap ?w2 ! length (map_heap w)) kvs]\<rparr>"
    for kvs
    by (rule foldl_map_assign [OF m])
  show ?thesis
    unfolding AddField_def make_map_def new_Logger_def
    by (simp add: assms(1) Let_def rd fold) (simp add: map_assign_def map_at_def)
qed

lemma World_invariant_fresh: "World_invariant fresh_World"
  by (simp add: World_invariant_def fresh_World_def)

lemma World_invariant_NewLogger:
  "World_invariant w \<Longrightarrow> World_invariant (snd (NewLogger env levelStr out col logFilePath w))"
  by (auto simp add: World_invariant_def NewLogger_def make_map_def new_Logger_def Let_def)

text \<open>
  C4. On a heap that satisfies the invariant, \<open>AddField(key, val)\<close> on a logger \<open>base\<close>
  returns a new \<open>Logger\<close> struct that has the minimum level, writer, file and color flag of
  \<open>base\<close> and refers to a new map object; that map holds each key once, and its entries are
  those of the field store of \<open>base\<close> with \<open>key\<close> bound to \<open>valueToString val\<close>. Every struct and
  every map allocated before is as it was, so \<open>base\<close> and its field store are unmodified;
  counter, buffer pool and sinks are untouched; and any emission from \<open>base\<close> after the call
  writes what it would have written before the call (a key that \<open>base\<close> does not hold is
  therefore not in its lines).
\<close>

theorem AddField_copies_and_leaves_base:
  assumes "World_invariant w" and "logger_at w l = Some base"
    and "range_visits_each_entry_once env"
  shows "fst (AddField env l key val w) = Inr (length (logger_heap w))
     \<and> logger_heap (snd (AddField env l key val w)) =
         logger_heap w @
           [\<lparr>level = level base, output = output base, file = file base,
             colored = colored base, fields_ref = length (map_heap w)\<rparr>]
     \<and> (\<exists>m'. map_heap (snd (AddField env l key val w)) = map_heap w @ [m']
            \<and> map_of m' = (map_of (map_at w (fields_ref base)))(key \<mapsto> valueToString env val)
            \<and> distinct (map fst m'))
     \<and> logger_at (snd (AddField env l key val w)) l = Some base
     \<and> map_at (snd (AddField env l key val w)) (fields_ref base) = map_at w (fields_ref base)
     \<and> logIDCounter (snd (AddField env l key val w)) = logIDCounter w
     \<and> bufferPool (snd (AddField env l key val w)) = bufferPool w
     \<and> writes (snd (AddField env l key val w)) = writes w
     \<and> World_invariant (snd (AddField env l key val w))
     \<and> (\<forall>env' L message extraFields.
           fst (log env' l L message extraFields (snd (AddField env l key val w)))
             = fst (log env' l L message extraFields w)
         \<and> writes (snd (log env' l L message extraFields (snd (AddField env l key val w))))
             = writes (snd (log env' l L message extraFields w)))"
proof -
  have lt: "l < length (logger_heap w)" and base: "logger_heap w ! l = base"
    using assms(2) by (auto simp add: logger_at_def split: if_splits)
  then have mem: "base \<in> set (logger_heap w)"
    by (metis nth_mem)
  with assms(1) have ref: "fields_ref base < length (map_heap w)"
    by (simp add: World_invariant_def)
  then have "map_at w (fields_ref base) \<in> set (map_heap w)"
    by (simp add: map_at_def)
  with assms(1) have dist: "distinct (map fst (map_at w (fields_ref base)))"
    by (simp add: World_invariant_def)
  let ?kvs = "range_order env 0 (map_at w (fields_ref base))"
  let ?copy = "foldl (\<lambda>al (k, v). AList.update k v al) [] ?kvs"
  let ?m' = "AList.update key (valueToString env val) ?copy"
  let ?new = "\<lparr>level = level base, output = output base, file = file base,
               colored = colored base, fields_ref = length (map_heap w)\<rparr>"
  let ?w' = "w\<lparr>map_heap := map_heap w @ [?m'], logger_heap := logger_heap w @ [?new]\<rparr>"
  have eq: "AddField env l key val w = (Inr (length (logger_heap w)), ?w')"
    by (rule AddField_Some [OF assms(2) ref])
  have visited: "mset ?kvs = mset (map_at w (fields_ref base))"
    using assms(3) by (simp add: range_visits_each_entry_once_def)
  have copy: "map_of ?copy = map_of (map_at w (fields_ref base))"
    by (simp add: map_of_foldl_update map_of_visited [OF visited dist])
  have m1: "map_of ?m' = (map_of (map_at w (fields_ref base)))(key \<mapsto> valueToString env val)"
    by (simp add: update_conv' copy)
  have m2: "distinct (map fst ?m')"
    by (simp add: distinct_update distinct_foldl_update)
  have la: "logger_at ?w' l = Some base"
    using lt base by (simp add: logger_at_def nth_append)
  have ma: "map_at ?w' (fields_ref base) = map_at w (fields_ref base)"
    using ref by (simp add: map_at_def nth_append)
  have inv: "World_invariant ?w'"
    using assms(1) m2 by (auto simp add: World_invariant_def)
  have same: "fst (log env' l L message extraFields ?w') = fst (log env' l L message extraFields w)
      \<and> writes (snd (log env' l L message extraFields ?w'))
          = writes (snd (log env' l L message extraFields w))" for env' L message extraFields
    by (simp add: log_Some [OF la] log_Some [OF assms(2)] ma Let_def split: option.splits)
  show ?thesis
    unfolding eq fst_conv snd_conv
    using m1 m2 la ma inv same by simp
qed

theorem AddField_copies_and_leaves_base_witness:
  "World_invariant example_World
   \<and> logger_at example_World 1 =
        Some \<lparr>level = InfoLevel, output = Some 1, file = Some 2, colored = False, fields_ref = 1\<rparr>
   \<and> range_visits_each_entry_once example_env
   \<and> fst (AddField example_env 1 ''k'' (VString ''v'') example_World) = Inr 3
   \<and> logger_heap (snd (AddField example_env 1 ''k'' (VString ''v'') example_World)) =
        logger_heap example_World @
          [\<lparr>level = InfoLevel, output = Some 1, file = Some 2, colored = False, fields_ref = 3\<rparr>]
   \<and> map_at (snd (AddField example_env 1 ''k'' (VString ''v'') example_World)) 1 =
        [(''user'', ''alice'')]"
proof -
  let ?base = "\<lparr>level = InfoLevel, output = Some 1, file = Some 2, colored = False, fields_ref = 1\<rparr>"
  have h1: "World_invariant example_World"
    by (simp add: World_invariant_def example_World_def)
  have h2: "logger_at example_World 1 = Some ?base"
    by (simp add: logger_at_def example_World_def)
  have h3: "range_visits_each_entry_once example_env"
    by (simp add: range_visits_each_entry_once_def example_env_def)
  have len: "length (logger_heap example_World) = 3" "length (map_heap example_World) = 3"
    "map_at example_World (Suc 0) = [(''user'', ''alice'')]"
    by (simp_all add: example_World_def map_at_def)
  show ?thesis
    using h1 h2 h3 AddField_copies_and_leaves_base [OF h1 h2 h3, of "''k''" "VString ''v''"]
    by (simp add: len)
qed


section \<open>Escape codes\<close>

subsection \<open>The plain rendering\<close>

lemma digit_table_no_ESC: "k < 10 \<Longrightarrow> CHR 0x1B \<noteq> ''0123456789'' ! k"
proof -
  assume "k < 10"
  then have "k \<in> {0, 1, 2, 3, 4, 5, 6, 7, 8, 9}" by auto
  then show ?thesis by auto
qed

lemma digits_no_ESC: "CHR 0x1B \<notin> set (digits n)"
proof (induction n rule: digits.induct)
  case (1 n)
  show ?case
  proof (cases "n < 10")
    case True
    then have "nat n < 10" by simp
    then show ?thesis
      using True by (subst digits.simps) (simp add: digit_table_no_ESC del: nth_Cons_numeral)
  next
    case False
    have "nat (n mod 10) < 10" by simp
    then show ?thesis
      using False "1.IH"
      by (subst digits.simps) (simp add: digit_table_no_ESC del: nth_Cons_numeral)
  qed
qed

lemma FormatInt_no_ESC: "CHR 0x1B \<notin> set (FormatInt i)"
  by (simp add: FormatInt_def digits_no_ESC)

lemma level_code_no_ESC: "CHR 0x1B \<notin> set (logLevelStrings ! rank lvl)"
  by (cases lvl) (simp_all add: logLevelStrings_def)

lemma append_fields_no_ESC:
  assumes "\<forall>(k, v) \<in> set kvs. CHR 0x1B \<notin> set k \<and> CHR 0x1B \<notin> set v"
  shows "CHR 0x1B \<notin> set (append_fields [] kvs)"
  using assms
proof (induction kvs)
  case Nil
  show ?case by simp
next
  case (Cons kv kvs)
  obtain k v where kv: "kv = (k, v)" by (cases kv)
  have "append_fields [] (kv # kvs) =
        ('' '' @ k @ [CHR '':'', CHR '' '', CHR 0x22] @ v @ [CHR 0x22]) @ append_fields [] kvs"
    using append_fields_append [of "[] @ '' '' @ k @ [CHR '':'', CHR '' '', CHR 0x22] @ v @ [CHR 0x22]" kvs]
    by (simp add: kv)
  then show ?case
    using Cons by (simp add: kv)
qed

lemma buildLogMessage_plain:
  "buildLogMessage ord_fields ord_extra lvl timestamp message flds extraFields False logID =
     ''ID:'' @ FormatInt (sint logID) @ '' '' @ logLevelStrings ! rank lvl
     @ '' '' @ timestamp @ '' '' @ message
     @ (if 0 < length flds \<or> 0 < length extraFields then '','' else [])
     @ append_fields [] (ord_fields flds) @ append_fields [] (ord_extra extraFields) @ [CHR 0x0A]"
  by (simp add: buildLogMessage_def Let_def append_fields_append [of "_ @ _"]
        append_fields_append [of "_ # _"])

lemma troLogger_buildLogMessage_plain:
  "troLogger_buildLogMessage ord_fields ord_extra lvl timestamp message flds extraFields False logID =
     logLevelStrings ! rank lvl @ '' '' @ timestamp @ '' '' @ ''ID:'' @ FormatInt (sint logID) @ '' ''
     @ message
     @ (if 0 < length flds \<or> 0 < length extraFields then '','' else [])
     @ append_fields [] (ord_fields flds) @ append_fields [] (ord_extra extraFields) @ [CHR 0x0A]"
  by (simp add: troLogger_buildLogMessage_def Let_def append_fields_append [of "_ @ _"]
        append_fields_append [of "_ # _"])

lemma visited_entries:
  assumes "range_visits_each_entry_once env"
  shows "set (range_order env n m) = set m"
  using assms by (metis range_visits_each_entry_once_def mset_eq_setD)

text \<open>
  C5, as the code has it. The plain rendering copies timestamp, message, keys and values
  as they are and adds no escape code of its own: when every \<open>range\<close> statement visits each
  entry once and neither the timestamp, nor the message, nor a key or a value of the fields
  contains the byte 0x1B, the line \<open>buildLogMessage\<close> renders with \<open>colored = false\<close> (the line
  \<open>log\<close> writes to the file) does not contain it. The same holds in \<open>logger.go\<close>.
\<close>

theorem plain_rendering_adds_no_escape:
  assumes "range_visits_each_entry_once env"
    and "CHR 0x1B \<notin> set timestamp" and "CHR 0x1B \<notin> set message"
    and "\<forall>(k, v) \<in> set flds \<union> set extraFields. CHR 0x1B \<notin> set k \<and> CHR 0x1B \<notin> set v"
  shows "CHR 0x1B \<notin> set (buildLogMessage (range_order env 2) (range_order env 3) lvl timestamp
                           message flds extraFields False logID)
       \<and> CHR 0x1B \<notin> set (troLogger_buildLogMessage (range_order env 2) (range_order env 3) lvl
                           timestamp message flds extraFields False logID)"
proof -
  have "\<forall>(k, v) \<in> set (range_order env 2 flds). CHR 0x1B \<notin> set k \<and> CHR 0x1B \<notin> set v"
    using assms(4) by (simp add: visited_entries [OF assms(1)])
  then have f: "CHR 0x1B \<notin> set (append_fields [] (range_order env 2 flds))"
    by (rule append_fields_no_ESC)
  have "\<forall>(k, v) \<in> set (range_order env 3 extraFields). CHR 0x1B \<notin> set k \<and> CHR 0x1B \<notin> set v"
    using assms(4) by (simp add: visited_entries [OF assms(1)])
  then have e: "CHR 0x1B \<notin> set (append_fields [] (range_order env 3 extraFields))"
    by (rule append_fields_no_ESC)
  show ?thesis
    using assms(2,3) f e
    by (simp add: buildLogMessage_plain troLogger_buildLogMessage_plain FormatInt_no_ESC
          level_code_no_ESC)
qed

theorem plain_rendering_adds_no_escape_witness:
  "range_visits_each_entry_once example_env
   \<and> CHR 0x1B \<notin> set ''2024-10-10T10:24:44+06:00'' \<and> CHR 0x1B \<notin> set ''oops''
   \<and> CHR 0x1B \<notin> set (buildLogMessage (range_order example_env 2) (range_order example_env 3)
        WarnLevel ''2024-10-10T10:24:44+06:00'' ''oops'' [(''user'', ''alice'')] [] False 7)"
proof -
  have h1: "range_visits_each_entry_once example_env"
    by (simp add: range_visits_each_entry_once_def example_env_def)
  have h2: "CHR 0x1B \<notin> set ''2024-10-10T10:24:44+06:00''" and h3: "CHR 0x1B \<notin> set ''oops''"
    by simp_all
  have h4: "\<forall>(k, v) \<in> set [(''user'', ''alice'')] \<union> set []. CHR 0x1B \<notin> set k \<and> CHR 0x1B \<notin> set v"
    by simp
  show ?thesis
    using h1 h2 h3 plain_rendering_adds_no_escape [OF h1 h2 h3 h4, of WarnLevel 7]
    by simp
qed

text \<open>
  The claim as stated says that the plain rendering of any record never contains 0x1B. It
  does when the message holds that byte: the message is copied into the line unchanged.
\<close>

theorem plain_rendering_escape_counterexample:
  "CHR 0x1B \<in> set (buildLogMessage (range_order example_env 2) (range_order example_env 3)
      InfoLevel ''2024-10-10T10:24:44+06:00'' [CHR 0x1B] [] [] False 1)"
  by (simp add: buildLogMessage_plain)


subsection \<open>The console rendering against the plain rendering\<close>

lemma strip_plain_prefix:
  "CHR 0x1B \<notin> set xs \<Longrightarrow> spec_strip_from Plain (xs @ ys) = xs @ spec_strip_from Plain ys"
  by (induction xs) auto

lemma strip_getColor: "spec_strip_from Plain (getColor lvl @ ys) = spec_strip_from Plain ys"
  by (cases lvl) simp_all

lemma strip_reset: "spec_strip_from Plain (reset @ ys) = spec_strip_from Plain ys"
  by (simp add: reset_def)

lemma strip_no_ESC: "CHR 0x1B \<notin> set xs \<Longrightarrow> spec_strip_from Plain xs = xs"
  using strip_plain_prefix [of xs "[]"] by simp

lemma strip_console_line:
  assumes "CHR 0x1B \<notin> set (now env)" and "CHR 0x1B \<notin> set message"
    and "\<forall>(k, v) \<in> set (range_order env 0 flds) \<union> set (range_order env 1 extraFields).
           CHR 0x1B \<notin> set k \<and> CHR 0x1B \<notin> set v"
    and "tail = [] \<or> tail = reset"
  shows "spec_strip_escapes (console_line env lvl message flds extraFields logID @ tail) =
         buildLogMessage (range_order env 0) (range_order env 1) lvl (now env) message
           flds extraFields False logID"
proof -
  define head where "head = ''ID:'' @ FormatInt (sint logID) @ '' ''"
  define code where "code = logLevelStrings ! rank lvl"
  define rest where "rest = '' '' @ now env @ '' '' @ message
     @ (if 0 < length flds \<or> 0 < length extraFields then '','' else [])
     @ append_fields [] (range_order env 0 flds)
     @ append_fields [] (range_order env 1 extraFields) @ [CHR 0x0A]"
  define mid where "mid = (if lvl = DebugLevel \<or> lvl = InfoLevel then reset else [])"
  have head: "CHR 0x1B \<notin> set head"
    by (simp add: head_def FormatInt_no_ESC)
  have code: "CHR 0x1B \<notin> set code"
    unfolding code_def by (rule level_code_no_ESC)
  have f: "CHR 0x1B \<notin> set (append_fields [] (range_order env 0 flds))"
    using assms(3) by (intro append_fields_no_ESC) auto
  have e: "CHR 0x1B \<notin> set (append_fields [] (range_order env 1 extraFields))"
    using assms(3) by (intro append_fields_no_ESC) auto
  have rest: "CHR 0x1B \<notin> set rest"
    using assms(1,2) f e by (simp add: rest_def)
  have tail: "spec_strip_from Plain tail = []"
    using assms(4) strip_reset [of "[]"] by auto
  have line: "console_line env lvl message flds extraFields logID @ tail =
      head @ (getColor lvl @ (code @ (mid @ (rest @ tail))))"
    by (simp add: console_line_def head_def code_def rest_def mid_def)
  have plain: "buildLogMessage (range_order env 0) (range_order env 1) lvl (now env) message
           flds extraFields False logID = head @ code @ rest"
    by (simp add: buildLogMessage_plain head_def code_def rest_def)
  have r: "spec_strip_from Plain (rest @ tail) = rest"
    by (simp add: strip_plain_prefix [OF rest] tail)
  have "spec_strip_from Plain (mid @ (rest @ tail)) = rest"
  proof (cases "lvl = DebugLevel \<or> lvl = InfoLevel")
    case True
    then have "mid = reset" by (simp add: mid_def)
    then show ?thesis by (simp only: strip_reset r)
  next
    case False
    then have "mid = []" by (simp add: mid_def)
    then show ?thesis by (simp only: append_Nil r)
  qed
  then have "spec_strip_escapes (console_line env lvl message flds extraFields logID @ tail) =
      head @ code @ rest"
    unfolding spec_strip_escapes_def line
    by (simp only: strip_plain_prefix [OF head] strip_getColor strip_plain_prefix [OF code])
  then show ?thesis
    by (simp only: plain)
qed

lemma received_Cons:
  "received h ((h', bytes) # ws) = (if h' = h then bytes @ received h ws else received h ws)"
  by (simp add: received_def)

lemma received_Nil: "received h [] = []"
  by (simp add: received_def)

text \<open>
  C6, as the code has it. Take a call of \<open>log\<close> on a logger with a writer and a file that
  are different sinks, at a level that passes the filter. If the \<open>range\<close> statements of
  \<open>buildLogMessage\<close> visit the fields in the order in which those of \<open>log\<close> visited them, and
  neither the timestamp, nor the message, nor a key or a value contains the byte 0x1B,
  then the bytes the call writes to the writer, with the escape sequences removed, are the
  bytes it writes to the file.
\<close>

theorem renderings_differ_in_escapes_only:
  assumes "logger_at w l = Some lg" and "output lg = Some out" and "file lg = Some f"
    and "out \<noteq> f" and "rank (level lg) \<le> rank L"
    and "range_order env 2 (map_at w (fields_ref lg)) = range_order env 0 (map_at w (fields_ref lg))"
    and "range_order env 3 extraFields = range_order env 1 extraFields"
    and "CHR 0x1B \<notin> set (now env)" and "CHR 0x1B \<notin> set message"
    and "\<forall>(k, v) \<in> set (range_order env 0 (map_at w (fields_ref lg)))
                    \<union> set (range_order env 1 extraFields).
           CHR 0x1B \<notin> set k \<and> CHR 0x1B \<notin> set v"
  shows "spec_strip_escapes
           (received out (drop (length (writes w)) (writes (snd (log env l L message extraFields w)))))
         = received f (drop (length (writes w)) (writes (snd (log env l L message extraFields w))))"
proof -
  let ?flds = "map_at w (fields_ref lg)"
  let ?id = "logIDCounter w + 1"
  let ?line = "console_line env L message ?flds extraFields ?id"
  let ?plain = "buildLogMessage (range_order env 2) (range_order env 3) L (now env) message
                  ?flds extraFields False ?id"
  let ?tail = "if (L = WarnLevel \<or> L = ErrorLevel) \<and> colored lg then reset else []"
  have new: "drop (length (writes w)) (writes (snd (log env l L message extraFields w))) =
        (f, ?plain) # (out, ?line) #
          (if (L = WarnLevel \<or> L = ErrorLevel) \<and> colored lg then [(out, reset)] else [])"
    using assms(2,3,5) by (simp add: log_Some [OF assms(1)] Let_def)
  have out: "received out ((f, ?plain) # (out, ?line) #
          (if (L = WarnLevel \<or> L = ErrorLevel) \<and> colored lg then [(out, reset)] else []))
        = ?line @ ?tail"
    using assms(4) by (simp add: received_Cons received_Nil)
  have fl: "received f ((f, ?plain) # (out, ?line) #
          (if (L = WarnLevel \<or> L = ErrorLevel) \<and> colored lg then [(out, reset)] else []))
        = ?plain"
    using assms(4) by (simp add: received_Cons received_Nil)
  have same: "?plain = buildLogMessage (range_order env 0) (range_order env 1) L (now env) message
                  ?flds extraFields False ?id"
    by (simp add: buildLogMessage_plain assms(6,7))
  have "spec_strip_escapes (?line @ ?tail) = ?plain"
    unfolding same
    by (rule strip_console_line [OF assms(8,9,10)]) simp
  then show ?thesis
    by (simp only: new out fl)
qed

theorem renderings_differ_in_escapes_only_witness:
  "logger_at example_World 2 =
     Some \<lparr>level = InfoLevel, output = Some 1, file = Some 2, colored = False, fields_ref = 2\<rparr>
   \<and> rank InfoLevel \<le> rank WarnLevel
   \<and> range_order example_env 2 (map_at example_World 2) = range_order example_env 0 (map_at example_World 2)
   \<and> CHR 0x1B \<notin> set (now example_env) \<and> CHR 0x1B \<notin> set ''oops''
   \<and> spec_strip_escapes
         (received 1 (writes (snd (log example_env 2 WarnLevel ''oops'' [] example_World))))
       = received 2 (writes (snd (log example_env 2 WarnLevel ''oops'' [] example_World)))"
proof -
  let ?lg = "\<lparr>level = InfoLevel, output = Some 1, file = Some 2, colored = False, fields_ref = 2\<rparr>"
  have h1: "logger_at example_World 2 = Some ?lg"
    by (simp add: logger_at_def example_World_def)
  have h2: "output ?lg = Some 1" and h3: "file ?lg = Some 2" and h4: "(1::nat) \<noteq> 2"
    and h5: "rank (level ?lg) \<le> rank WarnLevel"
    by simp_all
  have m: "map_at example_World 2 = [(''user'', ''alice''), (''n'', ''5'')]"
    by (simp add: map_at_def example_World_def)
  have h6: "range_order example_env 2 (map_at example_World (fields_ref ?lg))
            = range_order example_env 0 (map_at example_World (fields_ref ?lg))"
    and h7: "range_order example_env 3 [] = range_order example_env 1 []"
    by (simp_all add: example_env_def)
  have h8: "CHR 0x1B \<notin> set (now example_env)" and h9: "CHR 0x1B \<notin> set ''oops''"
    by (simp_all add: example_env_def)
  have h10: "\<forall>(k, v) \<in> set (range_order example_env 0 (map_at example_World (fields_ref ?lg)))
                    \<union> set (range_order example_env 1 []).
           CHR 0x1B \<notin> set k \<and> CHR 0x1B \<notin> set v"
    by (simp add: m example_env_def)
  have w: "length (writes example_World) = 0"
    by (simp add: example_World_def)
  show ?thesis
    using h1 h6 h8 h9
      renderings_differ_in_escapes_only [OF h1 h2 h3 h4 h5 h6 h7 h8 h9 h10]
    by (simp add: w)
qed

text \<open>
  The claim as stated puts no condition on the order of the fields. Go does not fix the
  order in which a \<open>range\<close> statement visits a map, and \<open>log\<close> and \<open>buildLogMessage\<close> each
  run their own: for a logger with the fields \<open>user\<close> and \<open>n\<close>, when \<open>buildLogMessage\<close> visits
  them in the opposite order the file line and the console line differ in more than
  escape codes.
\<close>

theorem renderings_differ_in_field_order_counterexample:
  "range_visits_each_entry_once reversing_env
   \<and> spec_strip_escapes
         (received 1 (writes (snd (log reversing_env 2 InfoLevel ''x'' [] example_World))))
       = ''ID:1 INFO 2024-10-10T10:24:44+06:00 x, user: '' @ [CHR 0x22] @ ''alice'' @ [CHR 0x22]
           @ '' n: '' @ [CHR 0x22] @ ''5'' @ [CHR 0x22, CHR 0x0A]
   \<and> received 2 (writes (snd (log reversing_env 2 InfoLevel ''x'' [] example_World)))
       = ''ID:1 INFO 2024-10-10T10:24:44+06:00 x, n: '' @ [CHR 0x22] @ ''5'' @ [CHR 0x22]
           @ '' user: '' @ [CHR 0x22] @ ''alice'' @ [CHR 0x22, CHR 0x0A]
   \<and> spec_strip_escapes
         (received 1 (writes (snd (log reversing_env 2 InfoLevel ''x'' [] example_World))))
       \<noteq> received 2 (writes (snd (log reversing_env 2 InfoLevel ''x'' [] example_World)))"
proof -
  let ?lg = "\<lparr>level = InfoLevel, output = Some 1, file = Some 2, colored = False, fields_ref = 2\<rparr>"
  have h1: "logger_at example_World 2 = Some ?lg"
    by (simp add: logger_at_def example_World_def)
  have v: "range_visits_each_entry_once reversing_env"
    by (simp add: range_visits_each_entry_once_def reversing_env_def)
  have ws: "writes (snd (log reversing_env 2 InfoLevel ''x'' [] example_World)) =
      [(2, ''ID:1 INFO 2024-10-10T10:24:44+06:00 x, n: '' @ [CHR 0x22] @ ''5'' @ [CHR 0x22]
           @ '' user: '' @ [CHR 0x22] @ ''alice'' @ [CHR 0x22, CHR 0x0A]),
       (1, ''ID:1 '' @ CHR 0x1B # ''[32mINFO'' @ CHR 0x1B # ''[0m 2024-10-10T10:24:44+06:00 x, user: ''
           @ [CHR 0x22] @ ''alice'' @ [CHR 0x22] @ '' n: '' @ [CHR 0x22] @ ''5'' @ [CHR 0x22, CHR 0x0A])]"
    by (subst log_Some [OF h1])
       (simp add: Let_def reversing_env_def example_env_def example_World_def
          map_at_def buildLogMessage_plain console_line_def FormatInt_def digits_below_10
          logLevelStrings_def reset_def)
  show ?thesis
    unfolding ws
    by (simp add: v received_def spec_strip_escapes_def)
qed


section \<open>Integer stringification\<close>

text \<open>
  C8. The claim: for every machine integer, \<open>intToString\<close> returns its exact decimal
  representation, with no restriction on the magnitude. The array of \<open>intToString\<close> holds
  ten bytes: at the eleven-digit value 10000000000 the eleventh digit is written at index
  10 and the call panics instead of returning a string, while \<open>strconv.Itoa\<close> gives the
  eleven digits.
\<close>

theorem intToString_eleven_digits_panics:
  "intToString 10000000000 = Inl IndexOutOfRange \<and> Itoa 10000000000 = ''10000000000''"
  by code_simp

end
